theory Spec2Isabelle
  imports Complex_Main "HOL-Library.Word"
begin

unbundle bit_operations_syntax

section \<open>The ICMP Echo packet of Pinger.py\<close>

text \<open>
  Python integers are unbounded and are modelled as \<open>int\<close>; a \<open>bytes\<close> object is a list
  of 8-bit words. Every exception the source can raise is a value of \<open>error\<close>, and a
  function that may raise returns \<open>error + 'a\<close> with \<open>Inl\<close> for the exception.
\<close>

type_synonym byte = "8 word"

datatype error = StructError | ValueError | IndexError | OSError | OtherError

subsection \<open>class ICMP\_Echo\_Type(Enum)\<close>

datatype ICMP_Echo_Type = ECHO | REPLY

text \<open>The \<open>.value\<close> of an enumeration member.\<close>

fun type_value :: "ICMP_Echo_Type \<Rightarrow> int" where
  "type_value ECHO = 8"
| "type_value REPLY = 0"

text \<open>The call \<open>ICMP_Echo_Type(v)\<close>: lookup by value, \<open>ValueError\<close> for an unknown value.\<close>

definition ICMP_Echo_Type_of :: "int \<Rightarrow> error + ICMP_Echo_Type" where
  "ICMP_Echo_Type_of v =
     (if v = 8 then Inr ECHO else if v = 0 then Inr REPLY else Inl ValueError)"

subsection \<open>struct.pack and struct.unpack for the format !BBHHH\<close>

text \<open>
  Format \<open>B\<close> takes an integer in 0..255, format \<open>H\<close> one in 0..65535 and writes it
  most significant byte first; any other argument raises \<open>struct.error\<close>.
\<close>

definition in_B :: "int \<Rightarrow> bool" where
  "in_B v = (0 \<le> v \<and> v \<le> 255)"

definition in_H :: "int \<Rightarrow> bool" where
  "in_H v = (0 \<le> v \<and> v \<le> 65535)"

definition enc_B :: "int \<Rightarrow> byte list" where
  "enc_B v = [word_of_int v]"

definition enc_H :: "int \<Rightarrow> byte list" where
  "enc_H v = [word_of_int (drop_bit 8 v), word_of_int v]"

definition dec_H :: "byte \<Rightarrow> byte \<Rightarrow> int" where
  "dec_H hi lo = push_bit 8 (uint hi) + uint lo"

text \<open>\<open>struct.pack(f"!BBHHH{len(data)}s", t, c, ck, i, s, data)\<close>\<close>

definition pack_echo :: "int \<Rightarrow> int \<Rightarrow> int \<Rightarrow> int \<Rightarrow> int \<Rightarrow> byte list \<Rightarrow> error + byte list" where
  "pack_echo t c ck i s d =
     (if in_B t \<and> in_B c \<and> in_H ck \<and> in_H i \<and> in_H s
      then Inr (enc_B t @ enc_B c @ enc_H ck @ enc_H i @ enc_H s @ d)
      else Inl StructError)"

text \<open>\<open>struct.unpack("!BBHHH", buf)\<close>: the buffer must hold exactly 8 bytes.\<close>

definition unpack_echo :: "byte list \<Rightarrow> error + (int \<times> int \<times> int \<times> int \<times> int)" where
  "unpack_echo buf =
     (if length buf = 8
      then Inr (uint (buf ! 0), uint (buf ! 1), dec_H (buf ! 2) (buf ! 3),
                dec_H (buf ! 4) (buf ! 5), dec_H (buf ! 6) (buf ! 7))
      else Inl StructError)"

subsection \<open>class ICMP\_Echo\<close>

text \<open>
  The field \<open>identifier\<close> is written \<open>identifier'\<close> (the plain name is reserved).
  \<open>response_time\<close> holds the integer \<open>-1\<close> or a double, the difference of two readings
  of \<open>time.perf_counter()\<close>; both are real numbers.
\<close>

record ICMP_Echo =
  icmp_type :: ICMP_Echo_Type
  code :: int
  checksum :: int
  identifier' :: int
  sequence :: int
  data :: "byte list"
  response_time :: real

text \<open>
  The summation loop of \<open>calculate_checksum\<close>:
  \<open>for i in range(0, len(payload), 2): a = payload[i]; b = payload[i+1]; s += (a << 8) + b\<close>.
  Reading \<open>payload[i+1]\<close> past the end raises \<open>IndexError\<close>.
\<close>

fun sum_loop :: "byte list \<Rightarrow> int \<Rightarrow> error + int" where
  "sum_loop [] s = Inr s"
| "sum_loop [a] s = Inl IndexError"
| "sum_loop (a # b # rest) s = sum_loop rest (s + (push_bit 8 (uint a) + uint b))"

definition calculate_checksum :: "ICMP_Echo \<Rightarrow> error + int" where
  "calculate_checksum m =
     (case pack_echo (type_value (icmp_type m)) (code m) 0 (identifier' m) (sequence m) (data m) of
        Inl e \<Rightarrow> Inl e
      | Inr payload \<Rightarrow>
          let payload = (if length payload mod 2 = 1 then payload @ [0] else payload) in
          (case sum_loop payload 0 of
             Inl e \<Rightarrow> Inl e
           | Inr s \<Rightarrow>
               let s = drop_bit 16 s + (s AND 0xFFFF);
                   s = s + drop_bit 16 s
               in Inr (NOT s AND 0xFFFF)))"

definition check_checksum :: "ICMP_Echo \<Rightarrow> error + bool" where
  "check_checksum m =
     (case calculate_checksum m of Inl e \<Rightarrow> Inl e | Inr c \<Rightarrow> Inr (checksum m = c))"

text \<open>
  \<open>set_checksum\<close> mutates the object: the model returns the object after the call
  together with the outcome. When \<open>calculate_checksum\<close> raises, nothing was assigned.
\<close>

definition set_checksum :: "ICMP_Echo \<Rightarrow> int option \<Rightarrow> ICMP_Echo \<times> (error + unit)" where
  "set_checksum m override =
     (case override of
        Some v \<Rightarrow> (m\<lparr>checksum := v\<rparr>, Inr ())
      | None \<Rightarrow>
          (case calculate_checksum m of
             Inl e \<Rightarrow> (m, Inl e)
           | Inr c \<Rightarrow> (m\<lparr>checksum := c\<rparr>, Inr ())))"

text \<open>\<open>__init__\<close>: an exception in the constructor leaves no object.\<close>

definition init :: "ICMP_Echo_Type \<Rightarrow> int \<Rightarrow> int \<Rightarrow> int \<Rightarrow> byte list \<Rightarrow> error + ICMP_Echo" where
  "init t c i s d =
     (case set_checksum
             \<lparr>icmp_type = t, code = c, checksum = 0, identifier' = i, sequence = s,
              data = d, response_time = -1\<rparr> None of
        (m, Inl e) \<Rightarrow> Inl e
      | (m, Inr u) \<Rightarrow> Inr m)"

text \<open>\<open>__bytes__\<close>: the object after the call and the bytes (or the exception).\<close>

definition to_bytes :: "ICMP_Echo \<Rightarrow> ICMP_Echo \<times> (error + byte list)" where
  "to_bytes m =
     (case set_checksum m None of
        (m', Inl e) \<Rightarrow> (m', Inl e)
      | (m', Inr u) \<Rightarrow>
          (m', pack_echo (type_value (icmp_type m')) (code m') (checksum m')
                 (identifier' m') (sequence m') (data m')))"

text \<open>\<open>from_bytes\<close>: the unpacked checksum is bound to a local and not used again.\<close>

definition from_bytes :: "byte list \<Rightarrow> error + ICMP_Echo" where
  "from_bytes packet =
     (case unpack_echo (take 8 packet) of
        Inl e \<Rightarrow> Inl e
      | Inr (type_val, c, ck, i, s) \<Rightarrow>
          let d = drop 8 packet in
          (case ICMP_Echo_Type_of type_val of
             Inl e \<Rightarrow> Inl e
           | Inr t \<Rightarrow> init t c i s d))"

subsection \<open>sendto and ping\<close>

text \<open>
  The raw socket, the clock and the console are the world \<open>sendto\<close> runs in, and the
  world is threaded through it. The world records every call \<open>sendto\<close> makes, in order
  (\<open>trace\<close>), and holds what each call will do. An outcome is told apart as far as the
  source tells it apart: the call returns, it raises an exception that a handler of
  \<open>sendto\<close> catches, or it raises one that no handler catches. \<open>socket.socket\<close> and
  \<open>send\<close> stand outside every \<open>try\<close>.

  \<open>time.perf_counter()\<close> returns a double, which is a real number: the reading of a call
  is \<open>clock\<close> at the number of calls made before it, so it is fixed by the place of the
  call in the run. The difference of two doubles is rounded; the rounded subtraction is
  Python's, not this program's, and is the parameter \<open>float_sub\<close> of the world.
\<close>

datatype connect_result = Connected | GaiError | ConnectOSError | ConnectOtherError

datatype recv_result = Received "byte list" | RecvTimeout | RecvOSError

datatype event =
  EvPrint | EvSocket | EvSettimeout | EvConnect string | EvPerfCounter
| EvSend "byte list" | EvRecv

record world =
  socket_ok :: bool
  connect_res :: "string \<Rightarrow> connect_result"
  send_ok :: "byte list \<Rightarrow> bool"
  recv_res :: recv_result
  clock :: "nat \<Rightarrow> real"
  float_sub :: "real \<Rightarrow> real \<Rightarrow> real"
  trace :: "event list"

text \<open>A call is recorded at the end of the trace.\<close>

definition call :: "world \<Rightarrow> event \<Rightarrow> world" where
  "call w ev = w\<lparr>trace := trace w @ [ev]\<rparr>"

definition perf_counter :: "world \<Rightarrow> world \<times> real" where
  "perf_counter w = (call w EvPerfCounter, clock w (length (trace w)))"

text \<open>
  \<open>sendto\<close> returns the world and the sender after the call (\<open>bytes(self)\<close> refreshes the
  sender's checksum) and the outcome: an exception, \<open>None\<close>, or the reply. Only
  \<open>socket.gaierror\<close> and \<open>OSError\<close> around \<open>connect\<close>, and \<open>TimeoutError\<close> and
  \<open>socket.timeout\<close> around \<open>recv\<close>, are caught. \<open>RecvOSError\<close> is an \<open>OSError\<close> from \<open>recv\<close>
  that is not a timeout, such as \<open>ConnectionRefusedError\<close>.
\<close>

definition sendto ::
  "world \<Rightarrow> ICMP_Echo \<Rightarrow> string \<Rightarrow> world \<times> ICMP_Echo \<times> (error + ICMP_Echo option)" where
  "sendto w0 self dest =
     (let w = (if icmp_type self \<noteq> ECHO then call w0 EvPrint else w0);
          w = call w EvSocket
      in
      if \<not> socket_ok w then (w, self, Inl OSError)
      else
        let w = call w EvSettimeout;
            w = call w (EvConnect dest)
        in
        (case connect_res w dest of
           GaiError \<Rightarrow> (w, self, Inr None)
         | ConnectOSError \<Rightarrow> (w, self, Inr None)
         | ConnectOtherError \<Rightarrow> (w, self, Inl OtherError)
         | Connected \<Rightarrow>
             (case to_bytes self of
                (self', Inl e) \<Rightarrow> (w, self', Inl e)
              | (self', Inr icmp_payload) \<Rightarrow>
                  (case perf_counter w of
                     (w, t1) \<Rightarrow>
                       let w = call w (EvSend icmp_payload) in
                       if \<not> send_ok w icmp_payload then (w, self', Inl OSError)
                       else
                         let w = call w EvRecv in
                         (case recv_res w of
                            RecvTimeout \<Rightarrow> (w, self', Inr None)
                          | RecvOSError \<Rightarrow> (w, self', Inl OSError)
                          | Received received \<Rightarrow>
                              (case perf_counter w of
                                 (w, t2) \<Rightarrow>
                                   let received = drop 20 received in
                                   (case from_bytes received of
                                      Inl e \<Rightarrow> (w, self', Inl e)
                                    | Inr response \<Rightarrow>
                                        (w, self',
                                         Inr (Some (response\<lparr>response_time :=
                                                      float_sub w t2 t1\<rparr>))))))))))"

text \<open>The default payload of \<open>__init__\<close>: \<open>b"abcdefghijklmnopqrstuvwabcdefghi"\<close>.\<close>

definition default_data :: "byte list" where
  "default_data = map of_char ''abcdefghijklmnopqrstuvwabcdefghi''"

definition ping :: "world \<Rightarrow> string \<Rightarrow> world \<times> (error + real)" where
  "ping w target =
     (case init ECHO 0 1 1 default_data of
        Inl e \<Rightarrow> (w, Inl e)
      | Inr Echo \<Rightarrow>
          (case sendto w Echo target of
             (w', Echo', Inl e) \<Rightarrow> (w', Inl e)
           | (w', Echo', Inr (Some response)) \<Rightarrow> (w', Inr (response_time response))
           | (w', Echo', Inr None) \<Rightarrow> (w', Inr (- 1))))"

subsection \<open>The checksum of RFC 1071 as the specification words it\<close>

text \<open>
  These three definitions follow the text of the specification, not the source: the
  16-bit big-endian words of a byte string, one zero byte appended in thought when the
  count is odd; folding the carries until none remains; the complement of the folded
  sum in 16 bits.
\<close>

fun spec_words :: "byte list \<Rightarrow> nat list" where
  "spec_words [] = []"
| "spec_words [a] = [256 * unat a + 0]"
| "spec_words (a # b # rest) = (256 * unat a + unat b) # spec_words rest"

function spec_fold :: "nat \<Rightarrow> nat" where
  "spec_fold s = (if s < 65536 then s else spec_fold (s div 65536 + s mod 65536))"
  by pat_completeness auto
termination
proof (relation "measure (\<lambda>s. s)")
  show "wf (measure (\<lambda>s::nat. s))"
    by simp
next
  fix s :: nat
  assume "\<not> s < 65536"
  then have "1 \<le> s div 65536"
    by (simp add: Suc_le_eq div_greater_zero_iff)
  then have "s div 65536 < 65536 * (s div 65536)"
    by linarith
  moreover have "s = 65536 * (s div 65536) + s mod 65536"
    by simp
  ultimately have "s div 65536 + s mod 65536 < s"
    by linarith
  then show "(s div 65536 + s mod 65536, s) \<in> measure (\<lambda>s. s)"
    by simp
qed

definition spec_checksum :: "byte list \<Rightarrow> int" where
  "spec_checksum bs = take_bit 16 (NOT (int (spec_fold (sum_list (spec_words bs)))))"

section \<open>Encoding and summation lemmas\<close>

lemma uint_enc_byte: "in_B v \<Longrightarrow> uint (word_of_int v :: byte) = v"
  by (simp add: in_B_def uint_word_of_int)

lemma dec_enc_H:
  assumes "in_H v"
  shows "dec_H (word_of_int (drop_bit 8 v)) (word_of_int v) = v"
proof -
  have r: "0 \<le> v" "v < 65536"
    using assms by (simp_all add: in_H_def)
  have hi: "uint (word_of_int (drop_bit 8 v) :: byte) = v div 256"
    using r by (simp add: uint_word_of_int drop_bit_eq_div)
  have lo: "uint (word_of_int v :: byte) = v mod 256"
    by (simp add: uint_word_of_int)
  show ?thesis
    unfolding dec_H_def hi lo by (simp add: push_bit_eq_mult)
qed

lemma sum_loop_spec_words:
  "sum_loop (if length bs mod 2 = 1 then bs @ [0] else bs) s
     = Inr (s + int (sum_list (spec_words bs)))"
proof (induction bs arbitrary: s rule: spec_words.induct)
  case 1
  show ?case by simp
next
  case (2 a)
  show ?case by (simp add: push_bit_eq_mult)
next
  case (3 a b rest)
  show ?case
    using "3.IH" [of "s + (push_bit 8 (uint a) + uint b)"]
    by (auto simp add: push_bit_eq_mult algebra_simps split: if_splits)
qed

section \<open>Two folding passes against folding until no carry remains\<close>

lemma spec_fold_small: "n < 65536 \<Longrightarrow> spec_fold n = n"
  by (subst spec_fold.simps) simp

lemma spec_fold_step: "\<not> n < 65536 \<Longrightarrow> spec_fold n = spec_fold (n div 65536 + n mod 65536)"
  by (subst spec_fold.simps) simp

lemma div_65536_one:
  fixes k :: nat
  assumes "65536 \<le> k" "k < 131072"
  shows "k div 65536 = 1" "k mod 65536 = k - 65536"
proof -
  show "k div 65536 = 1"
    by (rule div_nat_eqI) (use assms in simp_all)
  then show "k mod 65536 = k - 65536"
    using assms by (simp add: modulo_nat_def)
qed

lemma two_folds_nat:
  fixes n :: nat
  assumes "n < 4295032831"
  shows "(n div 65536 + n mod 65536 + (n div 65536 + n mod 65536) div 65536) mod 65536
         = spec_fold n"
proof -
  define hi where "hi = n div 65536"
  define lo where "lo = n mod 65536"
  define s1 where "s1 = hi + lo"
  have n: "n = 65536 * hi + lo" and lo: "lo < 65536"
    by (simp_all add: hi_def lo_def)
  have s1_le: "s1 < 131071"
    using n lo assms unfolding s1_def by linarith
  show ?thesis
  proof (cases "n < 65536")
    case True
    then have "hi = 0" "lo = n"
      by (simp_all add: hi_def lo_def)
    then show ?thesis
      using True by (simp add: spec_fold_small flip: hi_def lo_def)
  next
    case False
    then have step: "spec_fold n = spec_fold s1"
      by (simp add: spec_fold_step s1_def hi_def lo_def)
    show ?thesis
    proof (cases "s1 < 65536")
      case True
      then show ?thesis
        unfolding step by (simp add: spec_fold_small flip: hi_def lo_def s1_def)
    next
      case ge: False
      then have b: "65536 \<le> s1" "s1 < 131072"
        using s1_le by simp_all
      have d: "s1 div 65536 = 1" and m: "s1 mod 65536 = s1 - 65536"
        using div_65536_one [OF b] by simp_all
      have "spec_fold s1 = spec_fold (1 + (s1 - 65536))"
        using ge by (simp add: spec_fold_step d m)
      also have "\<dots> = 1 + (s1 - 65536)"
        by (rule spec_fold_small) (use s1_le in linarith)
      also have "\<dots> = s1 - 65535"
        using b by linarith
      finally have r: "spec_fold s1 = s1 - 65535" .
      have b2: "65536 \<le> s1 + 1" "s1 + 1 < 131072"
        using b s1_le by simp_all
      have "(s1 + s1 div 65536) mod 65536 = s1 + 1 - 65536"
        unfolding d using div_65536_one(2) [OF b2] by simp
      then show ?thesis
        unfolding step r using b by (simp flip: hi_def lo_def s1_def)
    qed
  qed
qed

lemma two_folds_int:
  fixes n :: nat
  assumes "n < 4295032831"
  shows "(let s = drop_bit 16 (int n) + (int n AND 0xFFFF); s = s + drop_bit 16 s
          in NOT s AND 0xFFFF) = take_bit 16 (NOT (int (spec_fold n)))"
proof -
  have mask: "(0xFFFF :: int) = mask 16"
    by (simp add: mask_eq_exp_minus_1)
  define s1 where "s1 = n div 65536 + n mod 65536"
  have a: "drop_bit 16 (int n) + (int n AND 0xFFFF) = int s1"
    unfolding mask by (simp add: s1_def drop_bit_eq_div zdiv_int zmod_int flip: take_bit_eq_mask add: take_bit_eq_mod)
  have b: "int s1 + drop_bit 16 (int s1) = int (s1 + s1 div 65536)"
    by (simp add: drop_bit_eq_div zdiv_int)
  have "take_bit 16 (NOT (int (s1 + s1 div 65536)))
        = take_bit 16 (NOT (take_bit 16 (int (s1 + s1 div 65536))))"
    by (simp only: take_bit_not_take_bit)
  also have "take_bit 16 (int (s1 + s1 div 65536)) = int ((s1 + s1 div 65536) mod 65536)"
    by (simp only: take_bit_of_nat) (simp add: take_bit_eq_mod)
  also have "(s1 + s1 div 65536) mod 65536 = spec_fold n"
    unfolding s1_def by (rule two_folds_nat [OF assms])
  finally have c: "take_bit 16 (NOT (int (s1 + s1 div 65536)))
                   = take_bit 16 (NOT (int (spec_fold n)))" .
  have "(let s = drop_bit 16 (int n) + (int n AND 0xFFFF); s = s + drop_bit 16 s
         in NOT s AND 0xFFFF) = NOT (int (s1 + s1 div 65536)) AND 0xFFFF"
    unfolding Let_def a b ..
  also have "\<dots> = take_bit 16 (NOT (int (s1 + s1 div 65536)))"
    unfolding mask by (simp only: take_bit_eq_mask)
  finally show ?thesis
    unfolding c .
qed

section \<open>Properties of calculate\_checksum\<close>

lemma calculate_checksum_sum:
  assumes "pack_echo (type_value (icmp_type m)) (code m) 0 (identifier' m) (sequence m) (data m) = Inr bs"
  shows "calculate_checksum m =
           Inr (let s = drop_bit 16 (int (sum_list (spec_words bs)))
                        + (int (sum_list (spec_words bs)) AND 0xFFFF);
                    s = s + drop_bit 16 s
                in NOT s AND 0xFFFF)"
  unfolding calculate_checksum_def assms
  by (simp only: sum.case Let_def sum_loop_spec_words) simp

lemma spec_words_bound: "sum_list (spec_words bs) \<le> 65535 * ((length bs + 1) div 2)"
proof (induction bs rule: spec_words.induct)
  case 1
  show ?case by simp
next
  case (2 a)
  have "unat a < 256"
    using unsigned_less [of a, where ?'a = nat] by simp
  then show ?case by simp
next
  case (3 a b rest)
  have "unat a < 256" "unat b < 256"
    using unsigned_less [of a, where ?'a = nat] unsigned_less [of b, where ?'a = nat] by simp_all
  then show ?case
    using "3.IH" by simp
qed

lemma spec_checksum_range: "0 \<le> spec_checksum bs \<and> spec_checksum bs \<le> 65535"
proof -
  have "spec_checksum bs < 2 ^ 16"
    unfolding spec_checksum_def by (rule take_bit_int_less_exp)
  then show ?thesis
    by (simp add: spec_checksum_def)
qed

lemma calculate_checksum_range:
  assumes "calculate_checksum m = Inr v"
  shows "0 \<le> v \<and> v \<le> 65535"
proof -
  have mask: "(0xFFFF :: int) = mask 16"
    by (simp add: mask_eq_exp_minus_1)
  obtain x where "v = NOT x AND 0xFFFF"
    using assms unfolding calculate_checksum_def
    by (auto simp: Let_def split: sum.splits)
  then have v: "v = take_bit 16 (NOT x)"
    unfolding mask by (simp only: take_bit_eq_mask)
  have "v < 2 ^ 16"
    unfolding v by (rule take_bit_int_less_exp)
  then show ?thesis
    by (simp add: v)
qed

lemma calculate_checksum_ignores_checksum:
  "calculate_checksum (m\<lparr>checksum := c\<rparr>) = calculate_checksum m"
  by (simp add: calculate_checksum_def)

lemma spec_words_replicate:
  "spec_words (replicate (2 * n) x) = replicate n (256 * unat x + unat x)"
  by (induction n) simp_all

section \<open>C1: the checksum algorithm\<close>

lemma pack_echo_zero_ok:
  assumes "in_B (code m)" "in_H (identifier' m)" "in_H (sequence m)"
  shows "pack_echo (type_value (icmp_type m)) (code m) 0 (identifier' m) (sequence m) (data m)
         = Inr (enc_B (type_value (icmp_type m)) @ enc_B (code m) @ enc_H 0
                @ enc_H (identifier' m) @ enc_H (sequence m) @ data m)"
  using assms by (cases "icmp_type m") (simp_all add: pack_echo_def in_B_def in_H_def)

lemma pack_echo_length:
  "pack_echo t c ck i s d = Inr bs \<Longrightarrow> length bs = 8 + length d"
  by (auto simp: pack_echo_def enc_B_def enc_H_def split: if_splits)

text \<open>
  Claim C1 (amended). For every message whose code, identifier and sequence pass
  \<open>struct.pack\<close> and whose payload has at most 131068 bytes, \<open>calculate_checksum\<close>
  returns the RFC 1071 checksum of the message serialized with checksum field 0: the
  16-bit complement of the sum of its big-endian 16-bit words (a zero byte appended in
  thought when the count is odd) with the carries folded until none remains. The result
  lies in 0..65535 and does not depend on the stored checksum field.
\<close>

theorem calculate_checksum_rfc1071:
  assumes "in_B (code m)" "in_H (identifier' m)" "in_H (sequence m)"
    and "length (data m) \<le> 131068"
  shows "\<exists>bs. pack_echo (type_value (icmp_type m)) (code m) 0 (identifier' m) (sequence m) (data m) = Inr bs
           \<and> calculate_checksum m = Inr (spec_checksum bs)
           \<and> 0 \<le> spec_checksum bs \<and> spec_checksum bs \<le> 65535
           \<and> (\<forall>c. calculate_checksum (m\<lparr>checksum := c\<rparr>) = Inr (spec_checksum bs))"
proof -
  obtain bs where bs:
    "pack_echo (type_value (icmp_type m)) (code m) 0 (identifier' m) (sequence m) (data m) = Inr bs"
    using pack_echo_zero_ok [OF assms(1-3)] by blast
  have "length bs \<le> 131076"
    using pack_echo_length [OF bs] assms(4) by simp
  then have "(length bs + 1) div 2 \<le> 65538"
    by linarith
  then have "65535 * ((length bs + 1) div 2) \<le> 65535 * 65538"
    by (rule mult_le_mono2)
  then have "sum_list (spec_words bs) < 4295032831"
    using spec_words_bound [of bs] by simp
  then have calc: "calculate_checksum m = Inr (spec_checksum bs)"
    unfolding calculate_checksum_sum [OF bs] spec_checksum_def
    by (simp only: two_folds_int)
  show ?thesis
    using bs calc spec_checksum_range [of bs]
    by (auto simp only: calculate_checksum_ignores_checksum)
qed

text \<open>Witness for C1: an ECHO message with the odd-length payload 01 02 03.\<close>

theorem calculate_checksum_rfc1071_witness:
  "pack_echo 8 0 0 1 1 [1, 2, 3] = Inr [8, 0, 0, 0, 0, 1, 0, 1, 1, 2, 3]
   \<and> calculate_checksum \<lparr>icmp_type = ECHO, code = 0, checksum = 7, identifier' = 1,
        sequence = 1, data = [1, 2, 3], response_time = - 1\<rparr>
       = Inr (spec_checksum [8, 0, 0, 0, 0, 1, 0, 1, 1, 2, 3])
   \<and> spec_checksum [8, 0, 0, 0, 0, 1, 0, 1, 1, 2, 3] = 62459"
proof -
  have p: "pack_echo 8 0 0 1 1 [1, 2, 3] = Inr [8, 0, 0, 0, 0, 1, 0, 1, 1, 2, 3]"
    by (simp add: pack_echo_def in_B_def in_H_def enc_B_def enc_H_def)
  have s: "spec_checksum [8, 0, 0, 0, 0, 1, 0, 1, 1, 2, 3] = 62459"
    by (simp add: spec_checksum_def)
  show ?thesis
    using calculate_checksum_rfc1071 [of "\<lparr>icmp_type = ECHO, code = 0, checksum = 7,
        identifier' = 1, sequence = 1, data = [1, 2, 3], response_time = - 1\<rparr>"] p s
    by (simp add: in_B_def in_H_def)
qed

text \<open>
  Counterexample to C1 as stated (every message): with 131076 payload bytes 0xFF the word
  sum is \<open>2^32 + 65535\<close>; two folding passes leave a carry, so the source returns 65535
  where folding to the end gives 65534.
\<close>

theorem calculate_checksum_rfc1071_counterexample:
  "pack_echo (type_value REPLY) 0 0 0 1 (replicate 131076 255)
     = Inr ([0, 0, 0, 0, 0, 0, 0, 1] @ replicate 131076 255)
   \<and> calculate_checksum \<lparr>icmp_type = REPLY, code = 0, checksum = 0, identifier' = 0,
        sequence = 1, data = replicate 131076 255, response_time = - 1\<rparr> = Inr 65535
   \<and> spec_checksum ([0, 0, 0, 0, 0, 0, 0, 1] @ replicate 131076 255) = 65534"
proof -
  have r: "replicate 131076 (255 :: byte) = replicate (2 * 65538) 255"
    by simp
  have p: "pack_echo (type_value REPLY) 0 0 0 1 (replicate 131076 255)
            = Inr ([0, 0, 0, 0, 0, 0, 0, 1] @ replicate 131076 255)"
    by (simp add: pack_echo_def in_B_def in_H_def enc_B_def enc_H_def)
  have w: "sum_list (spec_words ([0, 0, 0, 0, 0, 0, 0, 1] @ replicate 131076 255)) = 4295032831"
    unfolding r by (simp only: append.simps spec_words.simps spec_words_replicate sum_list.Cons sum_list_replicate) simp
  have f: "spec_fold 4295032831 = 1"
    by simp
  have s: "spec_checksum ([0, 0, 0, 0, 0, 0, 0, 1] @ replicate 131076 255) = 65534"
    unfolding spec_checksum_def w f by simp
  have c: "calculate_checksum \<lparr>icmp_type = REPLY, code = 0, checksum = 0, identifier' = 0,
        sequence = 1, data = replicate 131076 255, response_time = - 1\<rparr> = Inr 65535"
    by (subst calculate_checksum_sum [where bs = "[0, 0, 0, 0, 0, 0, 0, 1] @ replicate 131076 255"])
       (simp_all only: p w ICMP_Echo.simps, simp_all add: drop_bit_eq_div)
  show ?thesis
    using p s c by simp
qed

section \<open>Construction and serialization, case by case\<close>

lemma type_value_in_B: "in_B (type_value t)"
  by (cases t) (simp_all add: in_B_def)

lemma calculate_checksum_Inl:
  assumes "\<not> (in_B (code m) \<and> in_H (identifier' m) \<and> in_H (sequence m))"
  shows "calculate_checksum m = Inl StructError"
  using assms by (auto simp: calculate_checksum_def pack_echo_def)

lemma calculate_checksum_Inr:
  assumes "in_B (code m)" "in_H (identifier' m)" "in_H (sequence m)"
  shows "\<exists>v. calculate_checksum m = Inr v \<and> in_H v"
proof -
  obtain v where v: "calculate_checksum m = Inr v"
    using calculate_checksum_sum [OF pack_echo_zero_ok [OF assms]] by blast
  then show ?thesis
    using calculate_checksum_range [OF v] by (simp add: in_H_def)
qed

lemma set_checksum_None_Inr:
  assumes "calculate_checksum m = Inr v"
  shows "set_checksum m None = (m\<lparr>checksum := v\<rparr>, Inr ())"
  using assms by (simp add: set_checksum_def)

lemma set_checksum_None_Inl:
  assumes "calculate_checksum m = Inl e"
  shows "set_checksum m None = (m, Inl e)"
  using assms by (simp add: set_checksum_def)

lemma init_Inr:
  assumes "in_B c" "in_H i" "in_H s"
  shows "\<exists>v. in_H v
           \<and> calculate_checksum \<lparr>icmp_type = t, code = c, checksum = v, identifier' = i,
                 sequence = s, data = d, response_time = - 1\<rparr> = Inr v
           \<and> init t c i s d = Inr \<lparr>icmp_type = t, code = c, checksum = v, identifier' = i,
                 sequence = s, data = d, response_time = - 1\<rparr>"
proof -
  let ?m0 = "\<lparr>icmp_type = t, code = c, checksum = 0, identifier' = i,
                 sequence = s, data = d, response_time = - 1\<rparr>"
  obtain v where v: "calculate_checksum ?m0 = Inr v" "in_H v"
    using calculate_checksum_Inr [of ?m0] assms by auto
  have "calculate_checksum (?m0\<lparr>checksum := v\<rparr>) = Inr v"
    using v(1) by (simp only: calculate_checksum_ignores_checksum)
  moreover have "init t c i s d = Inr (?m0\<lparr>checksum := v\<rparr>)"
    unfolding init_def set_checksum_None_Inr [OF v(1)] by simp
  ultimately show ?thesis
    using v(2) by auto
qed

lemma init_Inl:
  assumes "\<not> (in_B c \<and> in_H i \<and> in_H s)"
  shows "init t c i s d = Inl StructError"
proof -
  let ?m0 = "\<lparr>icmp_type = t, code = c, checksum = 0, identifier' = i,
                 sequence = s, data = d, response_time = - 1\<rparr>"
  have "calculate_checksum ?m0 = Inl StructError"
    by (rule calculate_checksum_Inl) (use assms in simp)
  then show ?thesis
    unfolding init_def by (simp add: set_checksum_None_Inl)
qed

lemma init_fields:
  assumes "init t c i s d = Inr m"
  shows "icmp_type m = t \<and> code m = c \<and> identifier' m = i \<and> sequence m = s \<and> data m = d
         \<and> response_time m = - 1 \<and> in_B c \<and> in_H i \<and> in_H s
         \<and> calculate_checksum m = Inr (checksum m)"
proof (cases "in_B c \<and> in_H i \<and> in_H s")
  case True
  then show ?thesis
    using init_Inr [of c i s t d] assms by auto
next
  case False
  then show ?thesis
    using init_Inl [OF False, of t d] assms by simp
qed

lemma to_bytes_Inr:
  assumes "in_B (code m)" "in_H (identifier' m)" "in_H (sequence m)"
  shows "\<exists>v. calculate_checksum m = Inr v \<and> in_H v
           \<and> to_bytes m = (m\<lparr>checksum := v\<rparr>,
                 Inr (enc_B (type_value (icmp_type m)) @ enc_B (code m) @ enc_H v
                      @ enc_H (identifier' m) @ enc_H (sequence m) @ data m))"
proof -
  obtain v where v: "calculate_checksum m = Inr v" "in_H v"
    using calculate_checksum_Inr [OF assms] by auto
  have "to_bytes m = (m\<lparr>checksum := v\<rparr>,
                 Inr (enc_B (type_value (icmp_type m)) @ enc_B (code m) @ enc_H v
                      @ enc_H (identifier' m) @ enc_H (sequence m) @ data m))"
    unfolding to_bytes_def set_checksum_None_Inr [OF v(1)]
    using assms v(2) by (simp add: pack_echo_def type_value_in_B)
  then show ?thesis
    using v by auto
qed

lemma to_bytes_Inl:
  assumes "\<not> (in_B (code m) \<and> in_H (identifier' m) \<and> in_H (sequence m))"
  shows "to_bytes m = (m, Inl StructError)"
  unfolding to_bytes_def set_checksum_None_Inl [OF calculate_checksum_Inl [OF assms]]
  by simp

section \<open>Deserialization, case by case\<close>

lemma in_B_uint: "in_B (uint (b :: byte))"
  using uint_lt2p [of b] by (simp add: in_B_def)

lemma in_H_dec_H: "in_H (dec_H hi lo)"
  using uint_lt2p [of hi] uint_lt2p [of lo]
  by (simp add: in_H_def dec_H_def push_bit_eq_mult)

lemma from_bytes_short:
  assumes "length p < 8"
  shows "from_bytes p = Inl StructError"
  using assms by (simp add: from_bytes_def unpack_echo_def)

lemma from_bytes_long:
  assumes "8 \<le> length p"
  shows "from_bytes p =
           (case ICMP_Echo_Type_of (uint (p ! 0)) of
              Inl e \<Rightarrow> Inl e
            | Inr t \<Rightarrow> init t (uint (p ! 1)) (dec_H (p ! 4) (p ! 5)) (dec_H (p ! 6) (p ! 7))
                        (drop 8 p))"
  using assms by (simp add: from_bytes_def unpack_echo_def split: sum.splits)

lemma ICMP_Echo_Type_of_uint:
  "ICMP_Echo_Type_of (uint (b :: byte)) =
     (if b = 8 then Inr ECHO else if b = 0 then Inr REPLY else Inl ValueError)"
proof -
  have "uint b = 8 \<longleftrightarrow> b = 8" "uint b = 0 \<longleftrightarrow> b = 0"
    by (simp_all add: word_uint_eq_iff)
  then show ?thesis
    by (simp add: ICMP_Echo_Type_of_def)
qed

lemma from_bytes_bad_type:
  assumes "8 \<le> length p" "p ! 0 \<noteq> 8" "p ! 0 \<noteq> 0"
  shows "from_bytes p = Inl ValueError"
  using assms by (simp add: from_bytes_long ICMP_Echo_Type_of_uint)

lemma from_bytes_good:
  assumes "8 \<le> length p" "p ! 0 = 8 \<or> p ! 0 = 0"
  shows "\<exists>m. from_bytes p = Inr m
           \<and> calculate_checksum m = Inr (checksum m)
           \<and> icmp_type m = (if p ! 0 = 8 then ECHO else REPLY)
           \<and> code m = uint (p ! 1)
           \<and> identifier' m = dec_H (p ! 4) (p ! 5)
           \<and> sequence m = dec_H (p ! 6) (p ! 7)
           \<and> data m = drop 8 p"
proof -
  let ?t = "if p ! 0 = 8 then ECHO else REPLY"
  have t: "ICMP_Echo_Type_of (uint (p ! 0)) = Inr ?t"
    using assms(2) by (auto simp: ICMP_Echo_Type_of_uint)
  obtain v where
    "init ?t (uint (p ! 1)) (dec_H (p ! 4) (p ! 5)) (dec_H (p ! 6) (p ! 7)) (drop 8 p)
       = Inr \<lparr>icmp_type = ?t, code = uint (p ! 1), checksum = v,
               identifier' = dec_H (p ! 4) (p ! 5), sequence = dec_H (p ! 6) (p ! 7),
               data = drop 8 p, response_time = - 1\<rparr>"
    and "calculate_checksum \<lparr>icmp_type = ?t, code = uint (p ! 1), checksum = v,
               identifier' = dec_H (p ! 4) (p ! 5), sequence = dec_H (p ! 6) (p ! 7),
               data = drop 8 p, response_time = - 1\<rparr> = Inr v"
    using init_Inr [OF in_B_uint in_H_dec_H in_H_dec_H] by blast
  then show ?thesis
    unfolding from_bytes_long [OF assms(1)] t by simp
qed

section \<open>C2: the serialized form\<close>

lemma byte_of_int_mod: "(word_of_int (v mod 256) :: byte) = word_of_int v"
  by (simp add: word_of_int_eq_iff take_bit_eq_mod)

lemma uint_byte_div:
  assumes "in_H v"
  shows "uint (word_of_int (v div 256) :: byte) = v div 256"
proof -
  have "0 \<le> v" "v \<le> 65535"
    using assms by (simp_all add: in_H_def)
  then have "0 \<le> v div 256" "v div 256 \<le> 65535 div 256"
    by (simp_all add: zdiv_mono1)
  then have "v div 256 mod 256 = v div 256"
    by simp
  then show ?thesis
    by (simp add: uint_word_of_int)
qed

lemma uint_byte_mod: "uint (word_of_int (v mod 256) :: byte) = v mod 256"
  by (simp add: uint_word_of_int)

lemma enc_H_div_mod: "enc_H v = [word_of_int (v div 256), word_of_int (v mod 256)]"
  by (simp add: enc_H_def drop_bit_eq_div byte_of_int_mod)

lemma be_read:
  assumes "in_H v"
  shows "256 * uint (word_of_int (v div 256) :: byte) + uint (word_of_int (v mod 256) :: byte) = v"
  unfolding uint_byte_div [OF assms] uint_byte_mod by simp

text \<open>
  Claim C2. For every message whose fields pass \<open>struct.pack\<close> (every message that
  \<open>__init__\<close> or \<open>from_bytes\<close> returns), \<open>__bytes__\<close> yields exactly one byte type, one byte
  code, the refreshed checksum, the identifier and the sequence as two bytes each, most
  significant byte first, then the payload bytes: \<open>8 + len(data)\<close> bytes, with no pad
  byte after a payload of odd length.
\<close>

theorem to_bytes_layout:
  assumes "in_B (code m)" "in_H (identifier' m)" "in_H (sequence m)"
  shows "\<exists>ck bs. to_bytes m = (m\<lparr>checksum := ck\<rparr>, Inr bs)
           \<and> bs = [word_of_int (type_value (icmp_type m)), word_of_int (code m),
                   word_of_int (ck div 256), word_of_int (ck mod 256),
                   word_of_int (identifier' m div 256), word_of_int (identifier' m mod 256),
                   word_of_int (sequence m div 256), word_of_int (sequence m mod 256)] @ data m
           \<and> length bs = 8 + length (data m)
           \<and> uint (bs ! 0) = type_value (icmp_type m)
           \<and> uint (bs ! 1) = code m
           \<and> 256 * uint (bs ! 2) + uint (bs ! 3) = ck
           \<and> 256 * uint (bs ! 4) + uint (bs ! 5) = identifier' m
           \<and> 256 * uint (bs ! 6) + uint (bs ! 7) = sequence m
           \<and> drop 8 bs = data m"
proof -
  obtain v where v: "in_H v" and tb:
    "to_bytes m = (m\<lparr>checksum := v\<rparr>,
        Inr (enc_B (type_value (icmp_type m)) @ enc_B (code m) @ enc_H v
             @ enc_H (identifier' m) @ enc_H (sequence m) @ data m))"
    using to_bytes_Inr [OF assms] by blast
  let ?bs = "[word_of_int (type_value (icmp_type m)), word_of_int (code m),
              word_of_int (v div 256), word_of_int (v mod 256),
              word_of_int (identifier' m div 256), word_of_int (identifier' m mod 256),
              word_of_int (sequence m div 256), word_of_int (sequence m mod 256)] @ data m"
  have bs: "enc_B (type_value (icmp_type m)) @ enc_B (code m) @ enc_H v
             @ enc_H (identifier' m) @ enc_H (sequence m) @ data m = ?bs"
    by (simp add: enc_B_def enc_H_div_mod)
  have "uint (?bs ! 0) = type_value (icmp_type m)"
    using uint_enc_byte [OF type_value_in_B] by simp
  moreover have "uint (?bs ! 1) = code m"
    using uint_enc_byte [OF assms(1)] by simp
  moreover have "256 * uint (?bs ! 2) + uint (?bs ! 3) = v"
    using be_read [OF v] by simp
  moreover have "256 * uint (?bs ! 4) + uint (?bs ! 5) = identifier' m"
    using be_read [OF assms(2)] by simp
  moreover have "256 * uint (?bs ! 6) + uint (?bs ! 7) = sequence m"
    using be_read [OF assms(3)] by simp
  moreover have "length ?bs = 8 + length (data m)" "drop 8 ?bs = data m"
    by simp_all
  ultimately show ?thesis
    using tb unfolding bs by blast
qed

text \<open>Witness for C2: a payload of three bytes serializes to eleven bytes.\<close>

theorem to_bytes_layout_witness:
  "in_B 0 \<and> in_H 1 \<and> in_H 1
   \<and> to_bytes \<lparr>icmp_type = ECHO, code = 0, checksum = 0, identifier' = 1, sequence = 1,
                data = [1, 2, 3], response_time = - 1\<rparr>
     = (\<lparr>icmp_type = ECHO, code = 0, checksum = 62459, identifier' = 1, sequence = 1,
          data = [1, 2, 3], response_time = - 1\<rparr>,
        Inr [8, 0, 243, 251, 0, 1, 0, 1, 1, 2, 3])"
proof -
  have e: "to_bytes \<lparr>icmp_type = ECHO, code = 0, checksum = 0, identifier' = 1, sequence = 1,
                data = [1, 2, 3], response_time = - 1\<rparr>
     = (\<lparr>icmp_type = ECHO, code = 0, checksum = 62459, identifier' = 1, sequence = 1,
          data = [1, 2, 3], response_time = - 1\<rparr>,
        Inr [8, 0, 243, 251, 0, 1, 0, 1, 1, 2, 3])"
    by (simp add: to_bytes_def set_checksum_def calculate_checksum_def pack_echo_def
        in_B_def in_H_def enc_B_def enc_H_def)
  show ?thesis
    using to_bytes_layout [of "\<lparr>icmp_type = ECHO, code = 0, checksum = 0, identifier' = 1,
      sequence = 1, data = [1, 2, 3], response_time = - 1\<rparr>"] e
    by (simp add: in_B_def in_H_def)
qed

section \<open>C3 and C4: round trip and malformed input\<close>

text \<open>
  Claim C3. For every type, every code in 0..255, every identifier and sequence in
  0..65535 and every payload, the constructor returns a message, \<open>__bytes__\<close> returns
  its bytes, and \<open>from_bytes\<close> of these bytes returns a message with the same type, code,
  identifier, sequence and payload.
\<close>

theorem round_trip:
  assumes "in_B c" "in_H i" "in_H s"
  shows "\<exists>m m' bs r. init t c i s d = Inr m \<and> to_bytes m = (m', Inr bs)
           \<and> from_bytes bs = Inr r
           \<and> icmp_type r = t \<and> code r = c \<and> identifier' r = i \<and> sequence r = s
           \<and> data r = d \<and> r = m"
proof -
  obtain v where v: "in_H v"
    and cv: "calculate_checksum \<lparr>icmp_type = t, code = c, checksum = v, identifier' = i,
                 sequence = s, data = d, response_time = - 1\<rparr> = Inr v"
    and m: "init t c i s d = Inr \<lparr>icmp_type = t, code = c, checksum = v, identifier' = i,
                 sequence = s, data = d, response_time = - 1\<rparr>"
    using init_Inr [OF assms] by blast
  let ?m = "\<lparr>icmp_type = t, code = c, checksum = v, identifier' = i,
              sequence = s, data = d, response_time = - 1\<rparr>"
  let ?bs = "enc_B (type_value t) @ enc_B c @ enc_H v @ enc_H i @ enc_H s @ d"
  have tb: "to_bytes ?m = (?m, Inr ?bs)"
    using to_bytes_Inr [of ?m] assms cv by auto
  have len: "8 \<le> length ?bs"
    by (simp add: enc_B_def enc_H_def)
  have ty: "ICMP_Echo_Type_of (uint (?bs ! 0)) = Inr t"
    using uint_enc_byte [OF type_value_in_B [of t]]
    by (cases t) (simp_all add: enc_B_def ICMP_Echo_Type_of_def)
  have fields: "uint (?bs ! 1) = c" "dec_H (?bs ! 4) (?bs ! 5) = i"
    "dec_H (?bs ! 6) (?bs ! 7) = s" "drop 8 ?bs = d"
    using uint_enc_byte [OF assms(1)] dec_enc_H [OF assms(2)] dec_enc_H [OF assms(3)]
    by (simp_all add: enc_B_def enc_H_def)
  have "from_bytes ?bs = init t c i s d"
    unfolding from_bytes_long [OF len] ty fields by simp
  then have "from_bytes ?bs = Inr ?m"
    using m by simp
  then show ?thesis
    using m tb by auto
qed

text \<open>Witness for C3: the round trip of an ECHO message with identifier 513.\<close>

theorem round_trip_witness:
  "in_B 0 \<and> in_H 513 \<and> in_H 65535
   \<and> (\<exists>m m' bs r. init ECHO 0 513 65535 [1, 2, 3] = Inr m \<and> to_bytes m = (m', Inr bs)
           \<and> from_bytes bs = Inr r
           \<and> icmp_type r = ECHO \<and> code r = 0 \<and> identifier' r = 513 \<and> sequence r = 65535
           \<and> data r = [1, 2, 3] \<and> r = m)"
  using round_trip [of 0 513 65535 ECHO "[1, 2, 3]"]
  by (simp add: in_B_def in_H_def)

text \<open>
  Claim C4. \<open>from_bytes\<close> raises exactly when the buffer has fewer than 8 bytes
  (\<open>struct.error\<close>) or its first byte is neither 8 nor 0 (\<open>ValueError\<close>); every other
  buffer yields a message, whatever its checksum bytes are.
\<close>

theorem from_bytes_fails_iff:
  "(isl (from_bytes p) \<longleftrightarrow> length p < 8 \<or> (p ! 0 \<noteq> 8 \<and> p ! 0 \<noteq> 0))
   \<and> (from_bytes p = Inl StructError \<longleftrightarrow> length p < 8)
   \<and> (from_bytes p = Inl ValueError \<longleftrightarrow> 8 \<le> length p \<and> p ! 0 \<noteq> 8 \<and> p ! 0 \<noteq> 0)"
proof (cases "length p < 8")
  case True
  then show ?thesis
    by (simp add: from_bytes_short)
next
  case long: False
  show ?thesis
  proof (cases "p ! 0 = 8 \<or> p ! 0 = 0")
    case True
    then obtain m where "from_bytes p = Inr m"
      using from_bytes_good [of p] long by auto
    then show ?thesis
      using long True by auto
  next
    case False
    then have "from_bytes p = Inl ValueError"
      using from_bytes_bad_type [of p] long by simp
    then show ?thesis
      using long False by simp
  qed
qed

text \<open>
  Witness for C4: five bytes, a first byte 3, and an accepted buffer whose checksum
  bytes are wrong.
\<close>

theorem from_bytes_fails_iff_witness:
  "from_bytes [8, 0, 0, 0, 0] = Inl StructError
   \<and> from_bytes [3, 0, 0, 0, 0, 1, 0, 1] = Inl ValueError
   \<and> \<not> isl (from_bytes [8, 0, 0, 0, 0, 1, 0, 1])
   \<and> \<not> isl (from_bytes [0, 0, 18, 52, 0, 1, 0, 1, 9])"
  using from_bytes_fails_iff [of "[8, 0, 0, 0, 0]"]
    from_bytes_fails_iff [of "[3, 0, 0, 0, 0, 1, 0, 1]"]
    from_bytes_fails_iff [of "[8, 0, 0, 0, 0, 1, 0, 1]"]
    from_bytes_fails_iff [of "[0, 0, 18, 52, 0, 1, 0, 1, 9]"]
  by simp

section \<open>C5, C6, C7, C9 and C10: the checksum field and the constructor's bounds\<close>

text \<open>
  Claim C5, evaluated. The buffer 08 00 00 00 00 01 00 01 carries the checksum bytes
  00 00; the message \<open>from_bytes\<close> returns stores 63485, the value recomputed from the
  other fields.
\<close>

theorem from_bytes_discards_checksum:
  "from_bytes [8, 0, 0, 0, 0, 1, 0, 1]
     = Inr \<lparr>icmp_type = ECHO, code = 0, checksum = 63485, identifier' = 1, sequence = 1,
             data = [], response_time = - 1\<rparr>
   \<and> dec_H ([8, 0, 0, 0, 0, 1, 0, 1] ! 2) ([8, 0, 0, 0, 0, 1, 0, 1] ! 3) = 0"
  by (simp add: from_bytes_def unpack_echo_def ICMP_Echo_Type_of_def init_def set_checksum_def
      calculate_checksum_def pack_echo_def in_B_def in_H_def enc_B_def enc_H_def dec_H_def)

text \<open>
  Claim C6. For arbitrary field values that the constructor accepts, \<open>check_checksum\<close>
  is true of the new message; and after \<open>__bytes__\<close> the stored checksum is the one
  \<open>calculate_checksum\<close> computes, and it is the one written at offsets 2 and 3.
\<close>

theorem checksum_valid_after_init_and_bytes:
  assumes "in_B c" "in_H i" "in_H s"
  shows "\<exists>m m' bs. init t c i s d = Inr m \<and> check_checksum m = Inr True
           \<and> to_bytes (m\<lparr>checksum := stale\<rparr>) = (m', Inr bs)
           \<and> calculate_checksum m' = Inr (checksum m')
           \<and> check_checksum m' = Inr True
           \<and> dec_H (bs ! 2) (bs ! 3) = checksum m'"
proof -
  obtain v where v: "in_H v"
    and cv: "calculate_checksum \<lparr>icmp_type = t, code = c, checksum = v, identifier' = i,
                 sequence = s, data = d, response_time = - 1\<rparr> = Inr v"
    and m: "init t c i s d = Inr \<lparr>icmp_type = t, code = c, checksum = v, identifier' = i,
                 sequence = s, data = d, response_time = - 1\<rparr>"
    using init_Inr [OF assms] by blast
  let ?m = "\<lparr>icmp_type = t, code = c, checksum = v, identifier' = i,
              sequence = s, data = d, response_time = - 1\<rparr>"
  let ?bs = "enc_B (type_value t) @ enc_B c @ enc_H v @ enc_H i @ enc_H s @ d"
  have cs: "calculate_checksum (?m\<lparr>checksum := stale\<rparr>) = Inr v"
    using cv calculate_checksum_ignores_checksum [where m = ?m and c = stale] by simp
  have tb: "to_bytes (?m\<lparr>checksum := stale\<rparr>) = (?m, Inr ?bs)"
    using to_bytes_Inr [of "?m\<lparr>checksum := stale\<rparr>"] assms cs by auto
  have "check_checksum ?m = Inr True"
    by (simp add: check_checksum_def cv)
  moreover have "dec_H (?bs ! 2) (?bs ! 3) = checksum ?m"
    using dec_enc_H [OF v] by (simp add: enc_B_def enc_H_def)
  ultimately show ?thesis
    using m tb cv by auto
qed

text \<open>Witness for C6: the default request, serialized from a stale checksum 7.\<close>

theorem checksum_valid_after_init_and_bytes_witness:
  "in_B 0 \<and> in_H 1 \<and> in_H 1
   \<and> (\<exists>m m' bs. init ECHO 0 1 1 default_data = Inr m \<and> check_checksum m = Inr True
           \<and> to_bytes (m\<lparr>checksum := 7\<rparr>) = (m', Inr bs)
           \<and> calculate_checksum m' = Inr (checksum m')
           \<and> check_checksum m' = Inr True
           \<and> dec_H (bs ! 2) (bs ! 3) = checksum m')"
  using checksum_valid_after_init_and_bytes [of 0 1 1 ECHO default_data 7]
  by (simp add: in_B_def in_H_def)

text \<open>
  Claim C7. \<open>__bytes__\<close> changes no field of the message but the checksum, whether it
  returns or raises; when it returns, the checksum field holds the value
  \<open>calculate_checksum\<close> computes for the message.
\<close>

theorem to_bytes_frame:
  assumes "to_bytes m = (m', r)"
  shows "icmp_type m' = icmp_type m \<and> code m' = code m \<and> identifier' m' = identifier' m
         \<and> sequence m' = sequence m \<and> data m' = data m
         \<and> response_time m' = response_time m
         \<and> m' = m\<lparr>checksum := checksum m'\<rparr>
         \<and> (\<forall>bs. r = Inr bs \<longrightarrow> calculate_checksum m = Inr (checksum m'))"
proof (cases "calculate_checksum m")
  case (Inl e)
  then have "to_bytes m = (m, Inl e)"
    by (simp add: to_bytes_def set_checksum_def)
  then show ?thesis
    using assms by auto
next
  case (Inr v)
  then have "fst (to_bytes m) = m\<lparr>checksum := v\<rparr>"
    by (simp add: to_bytes_def set_checksum_def)
  then have "m' = m\<lparr>checksum := v\<rparr>"
    using assms by simp
  then show ?thesis
    using Inr by simp
qed

text \<open>Witness for C7: a message with elapsed time 2.5 and a stale checksum.\<close>

theorem to_bytes_frame_witness:
  "to_bytes \<lparr>icmp_type = REPLY, code = 0, checksum = 7, identifier' = 1, sequence = 1,
             data = [1, 2, 3], response_time = 5 / 2\<rparr>
     = (\<lparr>icmp_type = REPLY, code = 0, checksum = 64507, identifier' = 1, sequence = 1,
          data = [1, 2, 3], response_time = 5 / 2\<rparr>,
        Inr [0, 0, 251, 251, 0, 1, 0, 1, 1, 2, 3])
   \<and> calculate_checksum \<lparr>icmp_type = REPLY, code = 0, checksum = 7, identifier' = 1,
        sequence = 1, data = [1, 2, 3], response_time = 5 / 2\<rparr> = Inr 64507"
proof -
  have e: "to_bytes \<lparr>icmp_type = REPLY, code = 0, checksum = 7, identifier' = 1, sequence = 1,
             data = [1, 2, 3], response_time = 5 / 2\<rparr>
     = (\<lparr>icmp_type = REPLY, code = 0, checksum = 64507, identifier' = 1, sequence = 1,
          data = [1, 2, 3], response_time = 5 / 2\<rparr>,
        Inr [0, 0, 251, 251, 0, 1, 0, 1, 1, 2, 3])"
    by (simp add: to_bytes_def set_checksum_def calculate_checksum_def pack_echo_def
        in_B_def in_H_def enc_B_def enc_H_def)
  show ?thesis
    using to_bytes_frame [OF e] e by simp
qed

text \<open>
  Claim C9. The constructor rejects every identifier and every sequence outside
  0..65535 with \<open>struct.error\<close>; it does not mask, and no message results.
\<close>

theorem init_rejects_out_of_range:
  assumes "i < 0 \<or> 65535 < i \<or> s < 0 \<or> 65535 < s"
  shows "init t c i s d = Inl StructError"
  by (rule init_Inl) (use assms in \<open>auto simp: in_H_def\<close>)

text \<open>Witness for C9: identifier 65536, and sequence -1.\<close>

theorem init_rejects_out_of_range_witness:
  "init ECHO 0 65536 1 [] = Inl StructError \<and> init ECHO 0 1 (- 1) [] = Inl StructError"
  using init_rejects_out_of_range [of 65536 1 ECHO 0 "[]"]
    init_rejects_out_of_range [of 1 "- 1" ECHO 0 "[]"]
  by simp

text \<open>
  Claim C10. Every message that \<open>from_bytes\<close> returns passes \<open>check_checksum\<close>, and
  the result of \<open>from_bytes\<close> does not depend on the bytes at offsets 2 and 3.
\<close>

theorem from_bytes_always_checks:
  "(\<forall>m. from_bytes p = Inr m \<longrightarrow> check_checksum m = Inr True)
   \<and> from_bytes (p[2 := x, 3 := y]) = from_bytes p"
proof -
  have a: "check_checksum m = Inr True" if "from_bytes p = Inr m" for m
  proof -
    have "8 \<le> length p"
      using that from_bytes_short [of p] by (cases "length p < 8") simp_all
    moreover from this have "p ! 0 = 8 \<or> p ! 0 = 0"
      using that from_bytes_bad_type [of p] by auto
    ultimately have "8 \<le> length p" "p ! 0 = 8 \<or> p ! 0 = 0"
      by simp_all
    then have "calculate_checksum m = Inr (checksum m)"
      using from_bytes_good [of p] that by auto
    then show ?thesis
      by (simp add: check_checksum_def)
  qed
  have b: "from_bytes (p[2 := x, 3 := y]) = from_bytes p"
  proof (cases "length p < 8")
    case True
    then show ?thesis
      by (simp add: from_bytes_short)
  next
    case False
    then show ?thesis
      by (simp add: from_bytes_long split: sum.splits)
  qed
  show ?thesis
    using a b by blast
qed

text \<open>Witness for C10: a reply whose checksum bytes 12 34 are wrong is found valid.\<close>

theorem from_bytes_always_checks_witness:
  "from_bytes [0, 0, 18, 52, 0, 1, 0, 1, 9]
     = Inr \<lparr>icmp_type = REPLY, code = 0, checksum = 63229, identifier' = 1, sequence = 1,
             data = [9], response_time = - 1\<rparr>
   \<and> check_checksum \<lparr>icmp_type = REPLY, code = 0, checksum = 63229, identifier' = 1,
        sequence = 1, data = [9], response_time = - 1\<rparr> = Inr True"
proof -
  have e: "from_bytes [0, 0, 18, 52, 0, 1, 0, 1, 9]
     = Inr \<lparr>icmp_type = REPLY, code = 0, checksum = 63229, identifier' = 1, sequence = 1,
             data = [9], response_time = - 1\<rparr>"
    by (simp add: from_bytes_def unpack_echo_def ICMP_Echo_Type_of_def init_def set_checksum_def
      calculate_checksum_def pack_echo_def in_B_def in_H_def enc_B_def enc_H_def dec_H_def)
  show ?thesis
    using from_bytes_always_checks [of "[0, 0, 18, 52, 0, 1, 0, 1, 9]"] e by simp
qed

section \<open>C8: ping and a host that does not answer\<close>

lemma default_request:
  "init ECHO 0 1 1 default_data
     = Inr \<lparr>icmp_type = ECHO, code = 0, checksum = 19802, identifier' = 1, sequence = 1,
             data = default_data, response_time = - 1\<rparr>"
  by (simp add: init_def set_checksum_def calculate_checksum_def pack_echo_def
      in_B_def in_H_def enc_B_def enc_H_def default_data_def)

lemma default_request_bytes:
  "to_bytes \<lparr>icmp_type = ECHO, code = 0, checksum = 19802, identifier' = 1, sequence = 1,
             data = default_data, response_time = - 1\<rparr>
     = (\<lparr>icmp_type = ECHO, code = 0, checksum = 19802, identifier' = 1, sequence = 1,
             data = default_data, response_time = - 1\<rparr>,
        Inr ([8, 0, 77, 90, 0, 1, 0, 1] @ default_data))"
  by (simp add: to_bytes_def set_checksum_def calculate_checksum_def pack_echo_def
      in_B_def in_H_def enc_B_def enc_H_def default_data_def)

lemma ping_unfold:
  "ping w target =
     (case sendto w \<lparr>icmp_type = ECHO, code = 0, checksum = 19802, identifier' = 1,
             sequence = 1, data = default_data, response_time = - 1\<rparr> target of
        (w', Echo', Inl e) \<Rightarrow> (w', Inl e)
      | (w', Echo', Inr (Some response)) \<Rightarrow> (w', Inr (response_time response))
      | (w', Echo', Inr None) \<Rightarrow> (w', Inr (- 1)))"
  unfolding ping_def default_request by simp

lemma ping_socket_fails:
  assumes "\<not> socket_ok w"
  shows "ping w target = (w\<lparr>trace := trace w @ [EvSocket]\<rparr>, Inl OSError)"
  using assms by (simp add: ping_unfold sendto_def call_def)

lemma ping_connect_caught:
  assumes "socket_ok w"
    and "connect_res w target = GaiError \<or> connect_res w target = ConnectOSError"
  shows "ping w target
           = (w\<lparr>trace := trace w @ [EvSocket, EvSettimeout, EvConnect target]\<rparr>, Inr (- 1))"
  using assms by (auto simp: ping_unfold sendto_def call_def)

lemma ping_connect_other:
  assumes "socket_ok w" "connect_res w target = ConnectOtherError"
  shows "ping w target
           = (w\<lparr>trace := trace w @ [EvSocket, EvSettimeout, EvConnect target]\<rparr>,
              Inl OtherError)"
  using assms by (simp add: ping_unfold sendto_def call_def)

lemma ping_send_fails:
  assumes "socket_ok w" "connect_res w target = Connected"
    and "\<not> send_ok w ([8, 0, 77, 90, 0, 1, 0, 1] @ default_data)"
  shows "ping w target
           = (w\<lparr>trace := trace w @ [EvSocket, EvSettimeout, EvConnect target, EvPerfCounter,
                                      EvSend ([8, 0, 77, 90, 0, 1, 0, 1] @ default_data)]\<rparr>,
              Inl OSError)"
  using assms
  by (simp add: ping_unfold sendto_def call_def perf_counter_def default_request_bytes)

lemma ping_recv_timeout:
  assumes "socket_ok w" "connect_res w target = Connected"
    and "send_ok w ([8, 0, 77, 90, 0, 1, 0, 1] @ default_data)"
    and "recv_res w = RecvTimeout"
  shows "ping w target
           = (w\<lparr>trace := trace w @ [EvSocket, EvSettimeout, EvConnect target, EvPerfCounter,
                                      EvSend ([8, 0, 77, 90, 0, 1, 0, 1] @ default_data),
                                      EvRecv]\<rparr>,
              Inr (- 1))"
  using assms
  by (simp add: ping_unfold sendto_def call_def perf_counter_def default_request_bytes)

lemma ping_recv_error:
  assumes "socket_ok w" "connect_res w target = Connected"
    and "send_ok w ([8, 0, 77, 90, 0, 1, 0, 1] @ default_data)"
    and "recv_res w = RecvOSError"
  shows "ping w target
           = (w\<lparr>trace := trace w @ [EvSocket, EvSettimeout, EvConnect target, EvPerfCounter,
                                      EvSend ([8, 0, 77, 90, 0, 1, 0, 1] @ default_data),
                                      EvRecv]\<rparr>,
              Inl OSError)"
  using assms
  by (simp add: ping_unfold sendto_def call_def perf_counter_def default_request_bytes)

lemma ping_malformed_reply:
  assumes "socket_ok w" "connect_res w target = Connected"
    and "send_ok w ([8, 0, 77, 90, 0, 1, 0, 1] @ default_data)"
    and "recv_res w = Received rcv" "from_bytes (drop 20 rcv) = Inl e"
  shows "ping w target
           = (w\<lparr>trace := trace w @ [EvSocket, EvSettimeout, EvConnect target, EvPerfCounter,
                                      EvSend ([8, 0, 77, 90, 0, 1, 0, 1] @ default_data),
                                      EvRecv, EvPerfCounter]\<rparr>,
              Inl e)"
  using assms
  by (simp add: ping_unfold sendto_def call_def perf_counter_def default_request_bytes)

lemma ping_elapsed:
  assumes "socket_ok w" "connect_res w target = Connected"
    and "send_ok w ([8, 0, 77, 90, 0, 1, 0, 1] @ default_data)"
    and "recv_res w = Received rcv" "from_bytes (drop 20 rcv) = Inr reply"
  shows "ping w target
           = (w\<lparr>trace := trace w @ [EvSocket, EvSettimeout, EvConnect target, EvPerfCounter,
                                      EvSend ([8, 0, 77, 90, 0, 1, 0, 1] @ default_data),
                                      EvRecv, EvPerfCounter]\<rparr>,
              Inr (float_sub w (clock w (length (trace w) + 6))
                               (clock w (length (trace w) + 3))))"
  using assms
  by (simp add: ping_unfold sendto_def call_def perf_counter_def default_request_bytes
      eval_nat_numeral)

text \<open>
  Claim C8, evaluated. The host 192.0.2.1 does not answer. The socket is created,
  \<open>connect\<close> and \<open>send\<close> return, and \<open>recv\<close> raises \<open>ConnectionRefusedError\<close>, an \<open>OSError\<close> that
  is not a timeout: \<open>ping\<close> has sent the request and raises, where the claim has it return
  the negative sentinel. It raises likewise when what arrives is not an echo message (here
  a destination-unreachable message, type 3, behind the 20 bytes of IP header).
\<close>

theorem ping_raises_when_recv_raises:
  "ping \<lparr>socket_ok = True, connect_res = (\<lambda>d. Connected), send_ok = (\<lambda>b. True),
         recv_res = RecvOSError, clock = (\<lambda>n. real n / 1000),
         float_sub = (\<lambda>a b. a - b), trace = []\<rparr> ''192.0.2.1''
     = (\<lparr>socket_ok = True, connect_res = (\<lambda>d. Connected), send_ok = (\<lambda>b. True),
         recv_res = RecvOSError, clock = (\<lambda>n. real n / 1000),
         float_sub = (\<lambda>a b. a - b),
         trace = [EvSocket, EvSettimeout, EvConnect ''192.0.2.1'', EvPerfCounter,
                  EvSend ([8, 0, 77, 90, 0, 1, 0, 1] @ default_data), EvRecv]\<rparr>,
        Inl OSError)
   \<and> snd (ping \<lparr>socket_ok = True, connect_res = (\<lambda>d. Connected), send_ok = (\<lambda>b. True),
         recv_res = Received (replicate 20 0 @ [3, 1, 252, 254, 0, 0, 0, 0]),
         clock = (\<lambda>n. real n / 1000), float_sub = (\<lambda>a b. a - b), trace = []\<rparr>
         ''192.0.2.1'')
     = Inl ValueError"
proof -
  have v: "from_bytes (drop 20 (replicate 20 0 @ [3, 1, 252, 254, 0, 0, 0, 0])) = Inl ValueError"
    by (simp add: from_bytes_bad_type)
  show ?thesis
    by (simp add: ping_recv_error ping_malformed_reply [OF _ _ _ _ v])
qed

end
